theory Spec2Isabelle
  imports Main "HOL-Library.Char_ord" "HOL-Library.List_Lexorder"
begin

section \<open>Offline storage: the sync queue (lib/offlineStorage)\<close>

text \<open>
  The \<^verbatim>\<open>syncQueue\<close> object store of IndexedDB is created with \<^verbatim>\<open>keyPath: 'id'\<close>:
  it holds at most one record per key and \<^verbatim>\<open>getAll()\<close> returns the records in
  ascending key order. Keys are JavaScript strings, compared code unit by code unit, a
  proper prefix being smaller; this is the lexicographic order on \<^typ>\<open>string\<close> given
  by the character codes. The store is modelled as the list of its records in key order.
  Storage requests are taken to succeed (their \<^verbatim>\<open>onerror\<close> paths are not modelled).
\<close>

datatype itemType = order | waiterCall

record 'd SyncQueueItem =
  id' :: string
  type' :: itemType
  data :: 'd
  timestamp :: nat
  retries :: nat

type_synonym 'd syncStore = "'d SyncQueueItem list"

definition wf_store :: "'d syncStore \<Rightarrow> bool" where
  "wf_store st \<longleftrightarrow> sorted_wrt (<) (map id' st)"

text \<open>\<^verbatim>\<open>store.put(record)\<close>: insert, or replace the record with the same key.\<close>

fun store_put :: "'d SyncQueueItem \<Rightarrow> 'd syncStore \<Rightarrow> 'd syncStore" where
  "store_put x [] = [x]"
| "store_put x (y # ys) =
     (if id' x < id' y then x # y # ys
      else if id' x = id' y then x # ys
      else y # store_put x ys)"

text \<open>\<^verbatim>\<open>store.delete(id)\<close>, \<^verbatim>\<open>store.get(id)\<close> and \<^verbatim>\<open>store.getAll()\<close>.\<close>

definition store_delete :: "string \<Rightarrow> 'd syncStore \<Rightarrow> 'd syncStore" where
  "store_delete k st = filter (\<lambda>y. id' y \<noteq> k) st"

definition store_get :: "string \<Rightarrow> 'd syncStore \<Rightarrow> 'd SyncQueueItem option" where
  "store_get k st = find (\<lambda>y. id' y = k) st"

definition store_getAll :: "'d syncStore \<Rightarrow> 'd SyncQueueItem list" where
  "store_getAll st = st"

text \<open>
  The template literal \<^verbatim>\<open>`${Date.now()}-${...}`\<close> renders the integer clock reading in
  decimal.
\<close>

definition digit_char :: "nat \<Rightarrow> char" where
  "digit_char d = ''0123456789'' ! d"

fun dec :: "nat \<Rightarrow> string" where
  "dec n = (if n < 10 then [digit_char n] else dec (n div 10) @ [digit_char (n mod 10)])"

declare dec.simps [simp del]

text \<open>
  \<^verbatim>\<open>addToSyncQueue(item)\<close>. The two readings of \<^verbatim>\<open>Date.now()\<close> (one for the id, one
  for the timestamp) and the string \<^verbatim>\<open>Math.random().toString(36).substr(2, 9)\<close> are
  inputs: \<open>now\<close>, \<open>now'\<close> and \<open>rnd\<close>. Returns the id and the new store.
\<close>

definition addToSyncQueue ::
  "itemType \<Rightarrow> 'd \<Rightarrow> nat \<Rightarrow> string \<Rightarrow> nat \<Rightarrow> 'd syncStore \<Rightarrow> string \<times> 'd syncStore" where
  "addToSyncQueue ty d now rnd now' st =
     (let ident = dec now @ ''-'' @ rnd;
          queueItem = \<lparr>id' = ident, type' = ty, data = d, timestamp = now', retries = 0\<rparr>
      in (ident, store_put queueItem st))"

definition getSyncQueue :: "'d syncStore \<Rightarrow> 'd SyncQueueItem list" where
  "getSyncQueue st = store_getAll st"

definition removeFromSyncQueue :: "string \<Rightarrow> 'd syncStore \<Rightarrow> 'd syncStore" where
  "removeFromSyncQueue k st = store_delete k st"

text \<open>
  \<^verbatim>\<open>updateSyncQueueItem(id, updates)\<close>: the merge \<^verbatim>\<open>{ ...item, ...updates }\<close> is the
  application of \<open>updates\<close> to the stored record; an absent key leaves the store as it is.
\<close>

definition updateSyncQueueItem ::
  "string \<Rightarrow> ('d SyncQueueItem \<Rightarrow> 'd SyncQueueItem) \<Rightarrow> 'd syncStore \<Rightarrow> 'd syncStore" where
  "updateSyncQueueItem k updates st =
     (case store_get k st of
        Some item \<Rightarrow> store_put (updates item) st
      | None \<Rightarrow> st)"

section \<open>Background sync: replaying the queue (BackgroundSync.processSyncQueue)\<close>

text \<open>
  The outcome of one \<^verbatim>\<open>fetch\<close>: the promise rejects (network error) or resolves with
  an HTTP status; \<^verbatim>\<open>response.ok\<close> is true for the statuses 200 to 299.
\<close>

datatype response = NetworkError | Status nat

definition ok :: "nat \<Rightarrow> bool" where
  "ok c \<longleftrightarrow> 200 \<le> c \<and> c \<le> 299"

text \<open>
  What a drain does that is visible outside the store: each \<^verbatim>\<open>fetch\<close> (the endpoint,
  the queue item whose data is the body, and how the request settled) and each console
  line.
\<close>

datatype 'd event =
    Fetch string "'d SyncQueueItem" response
  | LogSynced string
  | LogFailed string
  | LogRemoved string

text \<open>The \<^verbatim>\<open>catch\<close> block of the loop body; \<open>item\<close> is the record as read by the drain.\<close>

definition on_failure :: "'d SyncQueueItem \<Rightarrow> 'd syncStore \<Rightarrow> 'd syncStore \<times> 'd event list" where
  "on_failure item st =
     (let st1 = updateSyncQueueItem (id' item) (\<lambda>i. i\<lparr>retries := retries item + 1\<rparr>) st
      in if retries item \<ge> 5
         then (removeFromSyncQueue (id' item) st1, [LogFailed (id' item), LogRemoved (id' item)])
         else (st1, [LogFailed (id' item)]))"

text \<open>One iteration of the \<^verbatim>\<open>for\<close> loop, given how the item's request settles.\<close>

definition sync_item ::
  "response \<Rightarrow> 'd SyncQueueItem \<Rightarrow> 'd syncStore \<Rightarrow> 'd syncStore \<times> 'd event list" where
  "sync_item resp item st =
     (case type' item of
        order \<Rightarrow>
          (case resp of
             NetworkError \<Rightarrow>
               (let (st', lg) = on_failure item st
                in (st', Fetch ''/api/orders'' item resp # lg))
           | Status c \<Rightarrow>
               if ok c
               then (removeFromSyncQueue (id' item) st,
                     [Fetch ''/api/orders'' item resp, LogSynced (id' item)])
               else (let (st', lg) = on_failure item st
                     in (st', Fetch ''/api/orders'' item resp # lg)))
      | waiterCall \<Rightarrow>
          (case resp of
             NetworkError \<Rightarrow>
               (let (st', lg) = on_failure item st
                in (st', Fetch ''/api/waiter-calls'' item resp # lg))
           | Status c \<Rightarrow>
               if ok c
               then (removeFromSyncQueue (id' item) st, [Fetch ''/api/waiter-calls'' item resp])
               else (st, [Fetch ''/api/waiter-calls'' item resp])))"

text \<open>
  The loop over the snapshot returned by \<^verbatim>\<open>getSyncQueue()\<close>. The backend is a function
  from the submitted item to the way its request settles.
\<close>

fun drain_loop ::
  "('d SyncQueueItem \<Rightarrow> response) \<Rightarrow> 'd SyncQueueItem list \<Rightarrow> 'd syncStore
     \<Rightarrow> 'd syncStore \<times> 'd event list" where
  "drain_loop backend [] st = (st, [])"
| "drain_loop backend (item # rest) st =
     (let (st1, t1) = sync_item (backend item) item st;
          (st2, t2) = drain_loop backend rest st1
      in (st2, t1 @ t2))"

record 'd BackgroundSync =
  isProcessing :: bool
  syncQueue :: "'d syncStore"

text \<open>
  \<^verbatim>\<open>processSyncQueue()\<close> run to completion with nothing interleaved; \<open>onLine\<close> is
  \<^verbatim>\<open>navigator.onLine\<close> at the call. The flag is set before the loop and reset by
  \<^verbatim>\<open>finally\<close>.
\<close>

definition processSyncQueue ::
  "bool \<Rightarrow> ('d SyncQueueItem \<Rightarrow> response) \<Rightarrow> 'd BackgroundSync
     \<Rightarrow> 'd BackgroundSync \<times> 'd event list" where
  "processSyncQueue onLine backend s =
     (if isProcessing s then (s, [])
      else if \<not> onLine then (s, [])
      else (let queue = getSyncQueue (syncQueue s);
                (st', tr) = drain_loop backend queue (syncQueue s)
            in (s\<lparr>isProcessing := False, syncQueue := st'\<rparr>, tr)))"

text \<open>Successive drains, each run to completion, the backend possibly changing between them.\<close>

fun drains ::
  "('d SyncQueueItem \<Rightarrow> response) list \<Rightarrow> 'd BackgroundSync
     \<Rightarrow> 'd BackgroundSync \<times> 'd event list" where
  "drains [] s = (s, [])"
| "drains (backend # later) s =
     (let (s1, t1) = processSyncQueue True backend s;
          (s2, t2) = drains later s1
      in (s2, t1 @ t2))"

text \<open>The items a trace submitted, in the order of the requests.\<close>

fun submitted :: "'d event list \<Rightarrow> 'd SyncQueueItem list" where
  "submitted [] = []"
| "submitted (Fetch url item resp # tr) = item # submitted tr"
| "submitted (e # tr) = submitted tr"

text \<open>
  Concrete inputs: a queued waiter call, a queued order, and a backend that answers every
  request with 500.
\<close>

definition call1 :: "string SyncQueueItem" where
  "call1 = \<lparr>id' = ''1700000000000-k3x9q2m1z'', type' = waiterCall, data = ''table 4'',
            timestamp = 1700000000000, retries = 0\<rparr>"

definition order1 :: "string SyncQueueItem" where
  "order1 = \<lparr>id' = ''1700000000000-k3x9q2m1z'', type' = order, data = ''2 tea'',
             timestamp = 1700000000000, retries = 0\<rparr>"

definition rejecting :: "string SyncQueueItem \<Rightarrow> response" where
  "rejecting = (\<lambda>_. Status 500)"

text \<open>
  A call of \<^verbatim>\<open>addToSyncQueue\<close> with the values it reads from the clock and the random
  generator, and the record it stores.
\<close>

record 'd enqueued =
  kind :: itemType
  payload :: 'd
  now_id :: nat
  rnd :: string
  now_ts :: nat

definition queued_item :: "'d enqueued \<Rightarrow> 'd SyncQueueItem" where
  "queued_item e = \<lparr>id' = dec (now_id e) @ ''-'' @ rnd e, type' = kind e, data = payload e,
                     timestamp = now_ts e, retries = 0\<rparr>"

fun enqueue_all :: "'d enqueued list \<Rightarrow> 'd syncStore \<Rightarrow> 'd syncStore" where
  "enqueue_all [] st = st"
| "enqueue_all (e # es) st =
     enqueue_all es (snd (addToSyncQueue (kind e) (payload e) (now_id e) (rnd e) (now_ts e) st))"

text \<open>The items whose request was answered with a 2xx status.\<close>

fun succeeded :: "'d event list \<Rightarrow> 'd SyncQueueItem list" where
  "succeeded [] = []"
| "succeeded (Fetch url item (Status c) # tr) = (if ok c then item # succeeded tr else succeeded tr)"
| "succeeded (e # tr) = succeeded tr"

text \<open>A backend that accepts every submission.\<close>

definition accepting :: "string SyncQueueItem \<Rightarrow> response" where
  "accepting = (\<lambda>_. Status 201)"

text \<open>Two orders enqueued within the same millisecond, and two enqueued a millisecond apart.\<close>

definition same_ms :: "string enqueued list" where
  "same_ms =
     [\<lparr>kind = order, payload = ''A'', now_id = 1700000000000, rnd = ''zq1x8m2k4'',
       now_ts = 1700000000000\<rparr>,
      \<lparr>kind = order, payload = ''B'', now_id = 1700000000000, rnd = ''a7c3e9g1b'',
       now_ts = 1700000000000\<rparr>]"

definition next_ms :: "string enqueued list" where
  "next_ms =
     [\<lparr>kind = order, payload = ''A'', now_id = 1700000000000, rnd = ''zq1x8m2k4'',
       now_ts = 1700000000000\<rparr>,
      \<lparr>kind = waiterCall, payload = ''B'', now_id = 1700000000001, rnd = ''a7c3e9g1b'',
       now_ts = 1700000000001\<rparr>]"

section \<open>The drain as interleaved steps\<close>

text \<open>
  \<^verbatim>\<open>processSyncQueue\<close> is an \<^verbatim>\<open>async\<close> function: it runs up to each \<^verbatim>\<open>await\<close>, and
  other work of the event loop (further calls of \<^verbatim>\<open>processSyncQueue\<close> from the interval
  timer or the \<^verbatim>\<open>online\<close> listener, enqueues from the UI) may run before it resumes.
  An activation is a call that has passed both guards and set the flag; it awaits either
  the queue snapshot or the response to the item it has submitted. The guards and the
  assignment \<^verbatim>\<open>isProcessing = true\<close> run without an \<^verbatim>\<open>await\<close> between them, so a call
  is one step; the storage requests of one loop iteration are taken as one step with the
  response that triggers them. \<open>sent\<close> lists the items whose request has been issued.
\<close>

datatype 'd activation =
    AwaitQueue
  | AwaitFetch "'d SyncQueueItem" "'d SyncQueueItem list"

record 'd sync_sys = "'d BackgroundSync" +
  running :: "'d activation list"
  sent :: "'d SyncQueueItem list"
  trace :: "'d event list"

datatype 'd action =
    Call bool
  | QueueRead nat
  | Settle nat response
  | Enqueue "'d enqueued"

text \<open>
  The head of the \<^verbatim>\<open>for\<close> loop for activation \<open>k\<close>: issue the request for the next
  item, or leave the loop, where \<^verbatim>\<open>finally\<close> resets the flag.
\<close>

definition advance :: "nat \<Rightarrow> 'd SyncQueueItem list \<Rightarrow> 'd sync_sys \<Rightarrow> 'd sync_sys" where
  "advance k items s =
     (case items of
        [] \<Rightarrow> s\<lparr>isProcessing := False, running := take k (running s) @ drop (Suc k) (running s)\<rparr>
      | item # rest \<Rightarrow>
          s\<lparr>running := (running s)[k := AwaitFetch item rest], sent := sent s @ [item]\<rparr>)"

fun step :: "'d action \<Rightarrow> 'd sync_sys \<Rightarrow> 'd sync_sys" where
  "step (Call onLine) s =
     (if isProcessing s then s
      else if \<not> onLine then s
      else s\<lparr>isProcessing := True, running := running s @ [AwaitQueue]\<rparr>)"
| "step (QueueRead k) s =
     (if k < length (running s) then
        (case running s ! k of
           AwaitQueue \<Rightarrow> advance k (getSyncQueue (syncQueue s)) s
         | AwaitFetch item rest \<Rightarrow> s)
      else s)"
| "step (Settle k resp) s =
     (if k < length (running s) then
        (case running s ! k of
           AwaitQueue \<Rightarrow> s
         | AwaitFetch item rest \<Rightarrow>
             (let (st', tr) = sync_item resp item (syncQueue s)
              in advance k rest (s\<lparr>syncQueue := st', trace := trace s @ tr\<rparr>)))
      else s)"
| "step (Enqueue e) s =
     s\<lparr>syncQueue := snd (addToSyncQueue (kind e) (payload e) (now_id e) (rnd e) (now_ts e)
                           (syncQueue s))\<rparr>"

text \<open>A run of the event loop, and: the flag is set after every step of the run.\<close>

fun run :: "'d action list \<Rightarrow> 'd sync_sys \<Rightarrow> 'd sync_sys" where
  "run [] s = s"
| "run (a # as) s = run as (step a s)"

fun in_progress :: "'d action list \<Rightarrow> 'd sync_sys \<Rightarrow> bool" where
  "in_progress [] s = True"
| "in_progress (a # as) s = (isProcessing (step a s) \<and> in_progress as (step a s))"

text \<open>The flag is set exactly while one activation exists.\<close>

definition one_drain :: "'d sync_sys \<Rightarrow> bool" where
  "one_drain s \<longleftrightarrow>
     (if isProcessing s then length (running s) = 1 else running s = [])"

text \<open>While one drain is under way: what has been sent and what is still to be sent.\<close>

definition no_resend :: "'d sync_sys \<Rightarrow> bool" where
  "no_resend s \<longleftrightarrow>
     wf_store (syncQueue s) \<and>
     (case running s of
        [] \<Rightarrow> \<not> isProcessing s \<and> sent s = []
      | [AwaitQueue] \<Rightarrow> isProcessing s \<and> sent s = []
      | [AwaitFetch item rest] \<Rightarrow> isProcessing s \<and> distinct (map id' (sent s @ rest))
      | _ \<Rightarrow> False)"

text \<open>
  Concrete inputs: two queued mutations, and a run in which the timer and the
  \<^verbatim>\<open>online\<close> listener call \<^verbatim>\<open>processSyncQueue\<close> again while the first call is under way.
\<close>

definition two_queued :: "string sync_sys" where
  "two_queued = \<lparr>isProcessing = False, syncQueue = enqueue_all next_ms [],
                  running = [], sent = [], trace = []\<rparr>"

definition overlapping :: "string action list" where
  "overlapping = [Call True, Call True, QueueRead 0, Call True, Settle 0 (Status 201)]"

section \<open>Push channel client (lib/websocketSync)\<close>

text \<open>
  The client holds the current socket, a counter of reconnect attempts and a flag set
  while a connection is being set up. Every \<^verbatim>\<open>new WebSocket\<close> creates a socket object with
  its own callbacks, which outlive the assignment \<^verbatim>\<open>this.ws = null\<close>; \<open>sockets\<close> lists
  the ready state of every socket created so far and \<open>ws\<close> is the index of the current
  one. \<open>timers\<close> holds the delays of the pending \<^verbatim>\<open>setTimeout(() => this.connect(), delay)\<close>
  callbacks. \<open>emitted\<close> records the calls of \<^verbatim>\<open>emit\<close>. The value handed to the
  handlers is seen as they read it: an object whose \<^verbatim>\<open>status\<close> field is a given string,
  or any other value. The client builds such objects itself, and the \<^verbatim>\<open>data\<close> field of a
  server message may be one as well. The handler registry (\<^verbatim>\<open>on\<close>) is not modelled: what handlers do in response is further
  events of the run.
\<close>

datatype readyState = CONNECTING | OPEN | CLOSING | CLOSED

datatype 'd payload = StatusObj string | OtherData 'd

record 'd WebSocketSync =
  sockets :: "readyState list"
  ws :: "nat option"
  reconnectAttempts :: nat
  isConnecting :: bool
  timers :: "nat list"
  emitted :: "(string \<times> 'd payload) list"

definition maxReconnectAttempts :: nat where
  "maxReconnectAttempts = 10"

definition reconnectDelay :: nat where
  "reconnectDelay = 2000"

definition fresh :: "'d WebSocketSync" where
  "fresh = \<lparr>sockets = [], ws = None, reconnectAttempts = 0, isConnecting = False,
            timers = [], emitted = []\<rparr>"

definition emit :: "string \<Rightarrow> 'd payload \<Rightarrow> 'd WebSocketSync \<Rightarrow> 'd WebSocketSync" where
  "emit eventType d s = s\<lparr>emitted := emitted s @ [(eventType, d)]\<rparr>"

definition delay_for :: "nat \<Rightarrow> nat" where
  "delay_for attempts = reconnectDelay * min attempts 5"

definition attemptReconnect :: "'d WebSocketSync \<Rightarrow> 'd WebSocketSync" where
  "attemptReconnect s =
     (if reconnectAttempts s \<ge> maxReconnectAttempts then s
      else (let n = reconnectAttempts s + 1;
                delay = delay_for n
            in s\<lparr>reconnectAttempts := n, timers := timers s @ [delay]\<rparr>))"

text \<open>\<^verbatim>\<open>this.ws?.readyState === WebSocket.OPEN\<close>\<close>

definition isConnected :: "'d WebSocketSync \<Rightarrow> bool" where
  "isConnected s =
     (case ws s of
        None \<Rightarrow> False
      | Some i \<Rightarrow> i < length (sockets s) \<and> sockets s ! i = OPEN)"

text \<open>
  \<^verbatim>\<open>connect()\<close>; \<open>throws\<close> says whether \<^verbatim>\<open>new WebSocket(wsUrl)\<close> throws, in which case
  \<^verbatim>\<open>this.ws\<close> keeps its value and the \<^verbatim>\<open>catch\<close> block runs.
\<close>

definition connect :: "bool \<Rightarrow> 'd WebSocketSync \<Rightarrow> 'd WebSocketSync" where
  "connect throws s =
     (if isConnected s \<or> isConnecting s then s
      else (let s1 = s\<lparr>isConnecting := True\<rparr>
            in if throws then attemptReconnect (s1\<lparr>isConnecting := False\<rparr>)
               else s1\<lparr>sockets := sockets s1 @ [CONNECTING], ws := Some (length (sockets s1))\<rparr>))"

text \<open>
  The four socket callbacks. \<open>parsed\<close> is the result of \<^verbatim>\<open>JSON.parse(event.data)\<close> read
  as \<^verbatim>\<open>(data.type, data.data)\<close>, or \<open>None\<close> when parsing throws. The message's type and
  data go to \<^verbatim>\<open>emit\<close> as they are, with no check of the type.
\<close>

definition onopen :: "'d WebSocketSync \<Rightarrow> 'd WebSocketSync" where
  "onopen s =
     emit ''connection'' (StatusObj ''connected'') (s\<lparr>reconnectAttempts := 0, isConnecting := False\<rparr>)"

definition onmessage ::
  "(string \<times> 'd payload) option \<Rightarrow> 'd WebSocketSync \<Rightarrow> 'd WebSocketSync" where
  "onmessage parsed s =
     (case parsed of
        None \<Rightarrow> s
      | Some (ty, d) \<Rightarrow> emit ty d s)"

definition onclose :: "'d WebSocketSync \<Rightarrow> 'd WebSocketSync" where
  "onclose s =
     attemptReconnect
       (emit ''connection'' (StatusObj ''disconnected'') (s\<lparr>isConnecting := False, ws := None\<rparr>))"

definition onerror :: "'d WebSocketSync \<Rightarrow> 'd WebSocketSync" where
  "onerror s = emit ''connection'' (StatusObj ''error'') (s\<lparr>isConnecting := False\<rparr>)"

text \<open>\<^verbatim>\<open>socket.close()\<close> starts the closing handshake; the close event comes later.\<close>

fun close :: "readyState \<Rightarrow> readyState" where
  "close CONNECTING = CLOSING"
| "close OPEN = CLOSING"
| "close CLOSING = CLOSING"
| "close CLOSED = CLOSED"

definition disconnect :: "'d WebSocketSync \<Rightarrow> 'd WebSocketSync" where
  "disconnect s =
     (let s1 = (case ws s of
                  None \<Rightarrow> s
                | Some i \<Rightarrow> s\<lparr>sockets := (sockets s)[i := close (sockets s ! i)], ws := None\<rparr>)
      in s1\<lparr>reconnectAttempts := maxReconnectAttempts\<rparr>)"

text \<open>
  What can happen next: the application calls \<^verbatim>\<open>connect()\<close> or \<^verbatim>\<open>disconnect()\<close>, the
  \<open>k\<close>-th pending timer fires, or the browser delivers an event of socket \<open>i\<close>. The
  browser opens only a connecting socket, delivers messages only on an open one, and
  delivers nothing after the close event.
\<close>

datatype 'd ws_event =
    CallConnect bool
  | CallDisconnect
  | TimerFires nat bool
  | SocketOpens nat
  | SocketMessage nat "(string \<times> 'd payload) option"
  | SocketErrors nat
  | SocketCloses nat

fun ws_step :: "'d ws_event \<Rightarrow> 'd WebSocketSync \<Rightarrow> 'd WebSocketSync" where
  "ws_step (CallConnect throws) s = connect throws s"
| "ws_step CallDisconnect s = disconnect s"
| "ws_step (TimerFires k throws) s =
     (if k < length (timers s)
      then connect throws (s\<lparr>timers := take k (timers s) @ drop (Suc k) (timers s)\<rparr>)
      else s)"
| "ws_step (SocketOpens i) s =
     (if i < length (sockets s) \<and> sockets s ! i = CONNECTING
      then onopen (s\<lparr>sockets := (sockets s)[i := OPEN]\<rparr>)
      else s)"
| "ws_step (SocketMessage i parsed) s =
     (if i < length (sockets s) \<and> sockets s ! i = OPEN then onmessage parsed s else s)"
| "ws_step (SocketErrors i) s =
     (if i < length (sockets s) \<and> sockets s ! i \<noteq> CLOSED then onerror s else s)"
| "ws_step (SocketCloses i) s =
     (if i < length (sockets s) \<and> sockets s ! i \<noteq> CLOSED
      then onclose (s\<lparr>sockets := (sockets s)[i := CLOSED]\<rparr>)
      else s)"

fun ws_run :: "'d ws_event list \<Rightarrow> 'd WebSocketSync \<Rightarrow> 'd WebSocketSync" where
  "ws_run [] s = s"
| "ws_run (e # es) s = ws_run es (ws_step e s)"

text \<open>
  Concrete runs and states: a connection that drops, after which the application calls
  \<^verbatim>\<open>disconnect()\<close> before the pending retry fires.
\<close>

definition reconnect_after_disconnect :: "unit ws_event list" where
  "reconnect_after_disconnect =
     [CallConnect False, SocketOpens 0, SocketCloses 0, CallDisconnect, TimerFires 0 False,
      SocketOpens 1]"

text \<open>
  The delays of the timers set during a run, in the order in which they are set: after
  each step, the timers that were not pending before it.
\<close>

fun pending_after :: "'d ws_event \<Rightarrow> 'd WebSocketSync \<Rightarrow> nat" where
  "pending_after (TimerFires k throws) s =
     (if k < length (timers s) then length (timers s) - 1 else length (timers s))"
| "pending_after e s = length (timers s)"

fun scheduled :: "'d ws_event list \<Rightarrow> 'd WebSocketSync \<Rightarrow> nat list" where
  "scheduled [] s = []"
| "scheduled (e # es) s =
     drop (pending_after e s) (timers (ws_step e s)) @ scheduled es (ws_step e s)"

text \<open>
  A connection that never comes up: each socket reports an error and closes, and the
  pending timer fires the next attempt.
\<close>

definition failed_attempt :: "nat \<Rightarrow> unit ws_event list" where
  "failed_attempt i = [SocketErrors i, SocketCloses i, TimerFires 0 False]"

definition ten_failures :: "unit ws_event list" where
  "ten_failures =
     CallConnect False # concat (map failed_attempt [0, 1, 2, 3, 4, 5, 6, 7, 8, 9])
       @ [SocketErrors 10, SocketCloses 10]"


text \<open>All ten attempts used up, nothing scheduled and no socket still connecting.\<close>

definition exhausted :: "'d WebSocketSync \<Rightarrow> bool" where
  "exhausted s \<longleftrightarrow>
     reconnectAttempts s \<ge> maxReconnectAttempts \<and> timers s = [] \<and> CONNECTING \<notin> set (sockets s)"




text \<open>The events the client emits from its open, close and error callbacks.\<close>

definition lifecycle_events :: "(string \<times> 'd payload) set" where
  "lifecycle_events =
     {(''connection'', StatusObj ''connected''), (''connection'', StatusObj ''disconnected''),
      (''connection'', StatusObj ''error'')}"

text \<open>
  Concrete runs: a connection attempt that fails; a server frame
  \<^verbatim>\<open>{ "type": "connection", "data": { "status": "maintenance" } }\<close> on an open socket; a
  session with an order notification, a frame that does not parse, the same server frame
  and a socket error.
\<close>

definition socket_error :: "unit ws_event list" where
  "socket_error = [CallConnect False, SocketErrors 0, SocketCloses 0]"

definition server_frame :: "unit ws_event list" where
  "server_frame =
     [CallConnect False, SocketOpens 0,
      SocketMessage 0 (Some (''connection'', StatusObj ''maintenance''))]"

definition session :: "unit ws_event list" where
  "session =
     [CallConnect False, SocketOpens 0, SocketMessage 0 (Some (''ORDER_UPDATE'', OtherData ())),
      SocketMessage 0 None, SocketMessage 0 (Some (''connection'', StatusObj ''maintenance'')),
      SocketErrors 0, SocketCloses 0, TimerFires 0 False]"

section \<open>Sync coordinator: change notifications (components/DataProvider)\<close>

text \<open>
  Each handler registered in the \<^verbatim>\<open>useEffect\<close> is
  \<^verbatim>\<open>async () => { const x = await api.getAll(); store.setX(x) }\<close>: it issues its fetch
  when the notification is processed and writes the result whenever the fetch resolves
  (\<^verbatim>\<open>BILL_UPDATE\<close> awaits two fetches with \<^verbatim>\<open>Promise.all\<close> and writes both results). If a
  fetch rejects the handler ends without writing. Invocations are numbered in the order
  in which they issue their fetches.
\<close>

datatype collection =
  MenuItems | Staff | Orders | Bills | Transactions | Customers | WaiterCalls | Settings | Expenses

datatype notification =
  MENU_UPDATE | STAFF_UPDATE | ORDER_UPDATE | BILL_UPDATE | CUSTOMER_UPDATE | WAITER_CALL
  | SETTINGS_UPDATE | EXPENSE_UPDATE

fun refetched :: "notification \<Rightarrow> collection list" where
  "refetched MENU_UPDATE = [MenuItems]"
| "refetched STAFF_UPDATE = [Staff]"
| "refetched ORDER_UPDATE = [Orders]"
| "refetched BILL_UPDATE = [Bills, Transactions]"
| "refetched CUSTOMER_UPDATE = [Customers]"
| "refetched WAITER_CALL = [WaiterCalls]"
| "refetched SETTINGS_UPDATE = [Settings]"
| "refetched EXPENSE_UPDATE = [Expenses]"

text \<open>
  The materialized collections, the handler invocations still awaiting their fetches, and
  the number of invocations so far.
\<close>

record 'v coordinator =
  materialized :: "collection \<Rightarrow> 'v"
  in_flight :: "(nat \<times> notification) list"
  issued :: nat

text \<open>
  A notification of some type is processed; the fetches of invocation \<open>k\<close> resolve with
  the given results; one of them rejects.
\<close>

datatype 'v coord_event =
    Notify notification
  | Resolve nat "collection \<Rightarrow> 'v"
  | Reject nat

fun set_all :: "collection list \<Rightarrow> (collection \<Rightarrow> 'v) \<Rightarrow> (collection \<Rightarrow> 'v) \<Rightarrow> (collection \<Rightarrow> 'v)" where
  "set_all [] result m = m"
| "set_all (c # cs) result m = set_all cs result (m(c := result c))"

fun coord_step :: "'v coord_event \<Rightarrow> 'v coordinator \<Rightarrow> 'v coordinator" where
  "coord_step (Notify t) s =
     s\<lparr>in_flight := in_flight s @ [(issued s, t)], issued := issued s + 1\<rparr>"
| "coord_step (Resolve k result) s =
     (case map_of (in_flight s) k of
        None \<Rightarrow> s
      | Some t \<Rightarrow>
          s\<lparr>materialized := set_all (refetched t) result (materialized s),
            in_flight := filter (\<lambda>p. fst p \<noteq> k) (in_flight s)\<rparr>)"
| "coord_step (Reject k) s = s\<lparr>in_flight := filter (\<lambda>p. fst p \<noteq> k) (in_flight s)\<rparr>"

fun coord_run :: "'v coord_event list \<Rightarrow> 'v coordinator \<Rightarrow> 'v coordinator" where
  "coord_run [] s = s"
| "coord_run (e # es) s = coord_run es (coord_step e s)"

text \<open>Concrete inputs: an empty coordinator, and an older and a newer backend answer.\<close>

definition ready :: "string list coordinator" where
  "ready = \<lparr>materialized = (\<lambda>c. []), in_flight = [], issued = 0\<rparr>"

definition older :: "collection \<Rightarrow> string list" where
  "older = (\<lambda>c. [''tea''])"

definition newer :: "collection \<Rightarrow> string list" where
  "newer = (\<lambda>c. [''tea'', ''coffee''])"

section \<open>Sync coordinator: the initial refresh (useBackendSync.connectToBackend)\<close>

text \<open>
  The collections of the application store, and what the nine requests of the refresh
  resolve to. The code guards against \<^verbatim>\<open>null\<close> results (\<^verbatim>\<open>orders || []\<close>,
  \<^verbatim>\<open>!menuItems\<close>), so each result is optional, \<open>None\<close> being \<^verbatim>\<open>null\<close> or \<^verbatim>\<open>undefined\<close>.
\<close>

record ('r, 's) appState =
  menuItems :: "'r list"
  orders :: "'r list"
  bills :: "'r list"
  customers :: "'r list"
  staff :: "'r list"
  settings :: 's
  expenses :: "'r list"
  waiterCalls :: "'r list"
  transactions :: "'r list"

record ('r, 's) responses =
  menuItems' :: "'r list option"
  orders' :: "'r list option"
  bills' :: "'r list option"
  customers' :: "'r list option"
  staff' :: "'r list option"
  settings' :: "'s option"
  expenses' :: "'r list option"
  waiterCalls' :: "'r list option"
  transactions' :: "'r list option"

text \<open>
  The outcomes: the health check fails, a request of \<^verbatim>\<open>Promise.all\<close> rejects, or
  \<^verbatim>\<open>staff.length\<close> is read on a \<^verbatim>\<open>null\<close> result; each ends in the \<^verbatim>\<open>catch\<close> block, which
  sets the error and leaves the store and the connected flag alone. The effects are listed
  in the order in which they happen; \<open>isConnected'\<close> is the value written by
  \<^verbatim>\<open>setIsConnected\<close>, \<open>None\<close> when it is not called.
\<close>

datatype syncError = NotReachable | FetchRejected | TypeError

datatype 'r effect = WsConnect | Create 'r | LogPushFailed 'r | SetState

record ('r, 's) outcome =
  state :: "('r, 's) appState"
  effects :: "'r effect list"
  error :: "syncError option"
  isConnected' :: "bool option"

text \<open>\<^verbatim>\<open>x || []\<close> and \<^verbatim>\<open>x || d\<close>.\<close>

definition or_empty :: "'r list option \<Rightarrow> 'r list" where
  "or_empty v = (case v of None \<Rightarrow> [] | Some xs \<Rightarrow> xs)"

definition or_else :: "'s option \<Rightarrow> 's \<Rightarrow> 's" where
  "or_else v d = (case v of None \<Rightarrow> d | Some x \<Rightarrow> x)"

text \<open>
  The seeding loop: \<^verbatim>\<open>menuApi.create(item)\<close> for each local item in turn, a rejection
  being caught and logged inside the loop body. \<open>created item\<close> says whether the push of
  \<open>item\<close> succeeds.
\<close>

definition push_all :: "('r \<Rightarrow> bool) \<Rightarrow> 'r list \<Rightarrow> 'r effect list" where
  "push_all created items =
     concat (map (\<lambda>item. if created item then [Create item]
                            else [Create item, LogPushFailed item]) items)"

definition failed :: "syncError \<Rightarrow> 'r effect list \<Rightarrow> ('r, 's) appState \<Rightarrow> ('r, 's) outcome" where
  "failed e sofar st = \<lparr>state = st, effects = sofar, error = Some e, isConnected' = None\<rparr>"

text \<open>The condition of the seeding branch.\<close>

definition seeds :: "('r, 's) responses \<Rightarrow> 'r list \<Rightarrow> bool" where
  "seeds f localMenuItems \<longleftrightarrow>
     (menuItems' f = None \<or> length (or_empty (menuItems' f)) = 0) \<and> length localMenuItems > 0"

text \<open>
  \<^verbatim>\<open>connectToBackend()\<close>: \<open>healthy\<close> is the result of \<^verbatim>\<open>checkBackendHealth()\<close>, \<open>fetched\<close>
  the results of the nine requests (\<open>None\<close> when one of them rejects), \<open>store\<close> the
  store the hook has captured.
\<close>

definition connectToBackend ::
  "bool \<Rightarrow> ('r, 's) responses option \<Rightarrow> ('r \<Rightarrow> bool) \<Rightarrow> ('r, 's) appState
     \<Rightarrow> ('r, 's) outcome" where
  "connectToBackend healthy fetched created store =
     (if \<not> healthy then failed NotReachable [] store
      else
        (case fetched of
           None \<Rightarrow> failed FetchRejected [WsConnect] store
         | Some f \<Rightarrow>
             (let localMenuItems = menuItems store
              in if seeds f localMenuItems
                 then
                   (let pushes = push_all created localMenuItems
                    in case staff' f of
                         None \<Rightarrow> failed TypeError (WsConnect # pushes) store
                       | Some sf \<Rightarrow>
                           \<lparr>state = store
                              \<lparr>orders := or_empty (orders' f),
                               bills := or_empty (bills' f),
                               customers := or_empty (customers' f),
                               staff := (if length sf > 0 then sf else staff store),
                               settings := or_else (settings' f) (settings store),
                               expenses := or_empty (expenses' f),
                               waiterCalls := or_empty (waiterCalls' f),
                               transactions := or_empty (transactions' f)\<rparr>,
                            effects = WsConnect # pushes @ [SetState],
                            error = None, isConnected' = Some True\<rparr>)
                 else
                   (case staff' f of
                      None \<Rightarrow> failed TypeError [WsConnect] store
                    | Some sf \<Rightarrow>
                        \<lparr>state = store
                           \<lparr>menuItems := or_empty (menuItems' f),
                            orders := or_empty (orders' f),
                            bills := or_empty (bills' f),
                            customers := or_empty (customers' f),
                            staff := (if length sf > 0 then sf else staff store),
                            settings := or_else (settings' f) (settings store),
                            expenses := or_empty (expenses' f),
                            waiterCalls := or_empty (waiterCalls' f),
                            transactions := or_empty (transactions' f)\<rparr>,
                         effects = [WsConnect, SetState],
                         error = None, isConnected' = Some True\<rparr>))))"

text \<open>
  Concrete inputs: a device with three local menu items facing a backend with empty
  collections, the push of one item failing.
\<close>

definition local_cafe :: "(string, string) appState" where
  "local_cafe = \<lparr>menuItems = [''tea'', ''coffee'', ''momo''], orders = [''old order''], bills = [],
                 customers = [], staff = [''asha''], settings = ''local settings'',
                 expenses = [], waiterCalls = [], transactions = []\<rparr>"

definition empty_backend :: "(string, string) responses" where
  "empty_backend = \<lparr>menuItems' = Some [], orders' = Some [], bills' = Some [],
                    customers' = Some [], staff' = Some [], settings' = None,
                    expenses' = Some [], waiterCalls' = Some [], transactions' = Some []\<rparr>"

definition pushed_ok :: "string \<Rightarrow> bool" where
  "pushed_ok item \<longleftrightarrow> item \<noteq> ''coffee''"

text \<open>The items pushed, and the items whose push failure was logged.\<close>

fun creates :: "'r effect list \<Rightarrow> 'r list" where
  "creates [] = []"
| "creates (Create item # es) = item # creates es"
| "creates (e # es) = creates es"

fun push_failures :: "'r effect list \<Rightarrow> 'r list" where
  "push_failures [] = []"
| "push_failures (LogPushFailed item # es) = item # push_failures es"
| "push_failures (e # es) = push_failures es"

section \<open>Properties of the drain\<close>

text \<open>
  C10. If the platform reports the network as offline, a drain returns at once: it makes
  no request and leaves the persisted queue, retry counts included, as it was.
\<close>

theorem offline_drain_is_noop:
  "processSyncQueue False backend s = (s, [])"
  by (simp add: processSyncQueue_def)

lemma drain_rejected_waiterCall:
  "processSyncQueue True rejecting \<lparr>isProcessing = False, syncQueue = [call1]\<rparr>
     = (\<lparr>isProcessing = False, syncQueue = [call1]\<rparr>,
        [Fetch ''/api/waiter-calls'' call1 (Status 500)])"
  by (simp add: processSyncQueue_def getSyncQueue_def store_getAll_def sync_item_def
      call1_def rejecting_def ok_def)

text \<open>
  C4. A replayed item is removed exactly when its response is 2xx; any other status or a
  network error counts as a failed replay and increments the item's retry count. For a
  waiter call answered with status 500 the code does neither: the item stays in the
  queue with its retry count still 0, and nothing is logged.
\<close>

theorem waiterCall_rejection_not_counted:
  "fst (processSyncQueue True rejecting \<lparr>isProcessing = False, syncQueue = [call1]\<rparr>)
     = \<lparr>isProcessing = False, syncQueue = [call1]\<rparr>
   \<and> retries call1 = 0
   \<and> snd (processSyncQueue True rejecting \<lparr>isProcessing = False, syncQueue = [call1]\<rparr>)
     = [Fetch ''/api/waiter-calls'' call1 (Status 500)]"
  by (simp add: drain_rejected_waiterCall) (simp add: call1_def)

text \<open>
  C3. A mutation that fails six submissions in a row is evicted, with the eviction
  reported, and is never submitted a seventh time. A waiter call answered with status 500
  at every drain is submitted seven times in seven drains, is still queued afterwards
  with retry count 0, and no removal is ever logged.
\<close>

theorem waiterCall_rejected_seven_times:
  "drains [rejecting, rejecting, rejecting, rejecting, rejecting, rejecting, rejecting]
      \<lparr>isProcessing = False, syncQueue = [call1]\<rparr>
     = (\<lparr>isProcessing = False, syncQueue = [call1]\<rparr>,
        [Fetch ''/api/waiter-calls'' call1 (Status 500),
         Fetch ''/api/waiter-calls'' call1 (Status 500),
         Fetch ''/api/waiter-calls'' call1 (Status 500),
         Fetch ''/api/waiter-calls'' call1 (Status 500),
         Fetch ''/api/waiter-calls'' call1 (Status 500),
         Fetch ''/api/waiter-calls'' call1 (Status 500),
         Fetch ''/api/waiter-calls'' call1 (Status 500)])"
  by (simp add: drain_rejected_waiterCall)

subsection \<open>The failure path\<close>

text \<open>
  Where a failed submission reaches the \<^verbatim>\<open>catch\<close> block (a rejected order, a network
  error for either kind) the retry count is incremented, and the sixth failure removes the
  item and logs the removal: an order answered with 500 at every drain is submitted six
  times and then gone.
\<close>

lemma store_get_put:
  "wf_store st \<Longrightarrow> store_get k (store_put x st) = (if id' x = k then Some x else store_get k st)"
  by (induction st) (auto simp: store_get_def wf_store_def)

lemma store_get_delete:
  "store_get k (store_delete j st) = (if k = j then None else store_get k st)"
  by (induction st) (auto simp: store_get_def store_delete_def)

lemma sync_item_order_rejected:
  "type' item = order \<Longrightarrow> \<not> ok c \<Longrightarrow>
   sync_item (Status c) item st
     = (fst (on_failure item st), Fetch ''/api/orders'' item (Status c) # snd (on_failure item st))"
  by (simp add: sync_item_def case_prod_beta)

lemma sync_item_network_error:
  "sync_item NetworkError item st
     = (fst (on_failure item st),
        Fetch (if type' item = order then ''/api/orders'' else ''/api/waiter-calls'') item NetworkError
          # snd (on_failure item st))"
  by (simp add: sync_item_def case_prod_beta split: itemType.splits)

lemma on_failure_counts:
  assumes "wf_store st" "store_get (id' item) st = Some item" "retries item < 5"
  shows "store_get (id' item) (fst (on_failure item st)) = Some (item\<lparr>retries := retries item + 1\<rparr>)"
    and "snd (on_failure item st) = [LogFailed (id' item)]"
  using assms by (simp_all add: on_failure_def updateSyncQueueItem_def store_get_put)

lemma on_failure_evicts:
  assumes "retries item \<ge> 5"
  shows "store_get (id' item) (fst (on_failure item st)) = None"
    and "snd (on_failure item st) = [LogFailed (id' item), LogRemoved (id' item)]"
  using assms by (simp_all add: on_failure_def removeFromSyncQueue_def store_get_delete)

lemma drain_rejected_order:
  "processSyncQueue True rejecting \<lparr>isProcessing = False, syncQueue = [order1\<lparr>retries := n\<rparr>]\<rparr>
     = (\<lparr>isProcessing = False,
         syncQueue = (if n \<ge> 5 then [] else [order1\<lparr>retries := n + 1\<rparr>])\<rparr>,
        Fetch ''/api/orders'' (order1\<lparr>retries := n\<rparr>) (Status 500) # LogFailed (id' order1)
          # (if n \<ge> 5 then [LogRemoved (id' order1)] else []))"
  by (simp add: processSyncQueue_def getSyncQueue_def store_getAll_def sync_item_def Let_def
      order1_def rejecting_def ok_def on_failure_def updateSyncQueueItem_def store_get_def
      removeFromSyncQueue_def store_delete_def)

lemma order_rejected_six_times:
  "fst (drains [rejecting, rejecting, rejecting, rejecting, rejecting, rejecting]
          \<lparr>isProcessing = False, syncQueue = [order1]\<rparr>)
     = \<lparr>isProcessing = False, syncQueue = []\<rparr>
   \<and> length (submitted (snd (drains [rejecting, rejecting, rejecting, rejecting, rejecting, rejecting]
          \<lparr>isProcessing = False, syncQueue = [order1]\<rparr>))) = 6
   \<and> last (snd (drains [rejecting, rejecting, rejecting, rejecting, rejecting, rejecting]
          \<lparr>isProcessing = False, syncQueue = [order1]\<rparr>)) = LogRemoved (id' order1)
   \<and> snd (drains [rejecting]
          (fst (drains [rejecting, rejecting, rejecting, rejecting, rejecting, rejecting]
          \<lparr>isProcessing = False, syncQueue = [order1]\<rparr>))) = []"
proof -
  have r0: "order1\<lparr>retries := 0\<rparr> = order1" by (simp add: order1_def)
  have d: "drains [rejecting, rejecting, rejecting, rejecting, rejecting, rejecting]
          \<lparr>isProcessing = False, syncQueue = [order1\<lparr>retries := 0\<rparr>]\<rparr>
      = (\<lparr>isProcessing = False, syncQueue = []\<rparr>,
         [Fetch ''/api/orders'' (order1\<lparr>retries := 0\<rparr>) (Status 500), LogFailed (id' order1),
          Fetch ''/api/orders'' (order1\<lparr>retries := 1\<rparr>) (Status 500), LogFailed (id' order1),
          Fetch ''/api/orders'' (order1\<lparr>retries := 2\<rparr>) (Status 500), LogFailed (id' order1),
          Fetch ''/api/orders'' (order1\<lparr>retries := 3\<rparr>) (Status 500), LogFailed (id' order1),
          Fetch ''/api/orders'' (order1\<lparr>retries := 4\<rparr>) (Status 500), LogFailed (id' order1),
          Fetch ''/api/orders'' (order1\<lparr>retries := 5\<rparr>) (Status 500), LogFailed (id' order1),
          LogRemoved (id' order1)])"
    by (simp add: drain_rejected_order)
  have e: "processSyncQueue True rejecting \<lparr>isProcessing = False, syncQueue = []\<rparr>
      = (\<lparr>isProcessing = False, syncQueue = []\<rparr>, [])"
    by (simp add: processSyncQueue_def getSyncQueue_def store_getAll_def)
  show ?thesis
    using d unfolding r0 by (simp add: e)
qed

subsection \<open>The order of replay\<close>

lemma less_append_same_length:
  fixes xs ys :: "'a::linorder list"
  shows "length xs = length ys \<Longrightarrow> xs < ys \<Longrightarrow> xs @ u < ys @ v"
  by (induction xs ys rule: list_induct2) auto

lemma less_append_same_prefix:
  fixes u v :: "'a::linorder list"
  shows "u < v \<Longrightarrow> xs @ u < xs @ v"
  by (induction xs) auto

lemma of_char_digit: "d < 10 \<Longrightarrow> of_char (digit_char d) = (48 + d :: nat)"
proof -
  assume "d < 10"
  then have "d \<in> {0,1,2,3,4,5,6,7,8,9}" by auto
  then show ?thesis by (auto simp: digit_char_def)
qed

lemma digit_char_mono: "a < b \<Longrightarrow> b < 10 \<Longrightarrow> digit_char a < digit_char b"
  by (simp add: less_char_def of_char_digit)

lemma dec_nonempty: "dec n \<noteq> []"
  by (subst dec.simps) simp

lemma length_dec_small: "length (dec n) = 1 \<longleftrightarrow> n < 10"
  by (subst dec.simps) (use dec_nonempty in auto)

lemma dec_mono: "a < b \<Longrightarrow> length (dec a) = length (dec b) \<Longrightarrow> dec a < dec b"
proof (induction b arbitrary: a rule: dec.induct)
  case (1 b)
  show ?case
  proof (cases "b < 10")
    case True
    with "1.prems" have "a < 10" by simp
    with True "1.prems" show ?thesis
      by (simp add: dec.simps[of a] dec.simps[of b] digit_char_mono)
  next
    case False
    with "1.prems"(2) have a10: "\<not> a < 10"
      using length_dec_small[of a] length_dec_small[of b] by simp
    have len: "length (dec (a div 10)) = length (dec (b div 10))"
      using "1.prems"(2) False a10 by (simp add: dec.simps[of a] dec.simps[of b])
    have le: "a div 10 \<le> b div 10" using "1.prems"(1) by (simp add: div_le_mono)
    show ?thesis
    proof (cases "a div 10 < b div 10")
      case True
      from "1.IH"[OF False True len] have "dec (a div 10) < dec (b div 10)" .
      with len show ?thesis
        using False a10 by (simp add: dec.simps[of a] dec.simps[of b] less_append_same_length)
    next
      case F: False
      with le have eq: "a div 10 = b div 10" by simp
      with "1.prems"(1) have "a mod 10 < b mod 10"
        by (metis div_mult_mod_eq nat_add_left_cancel_less)
      then have "digit_char (a mod 10) < digit_char (b mod 10)"
        by (simp add: digit_char_mono)
      then show ?thesis
        using False a10 eq by (simp add: dec.simps[of a] dec.simps[of b] less_append_same_prefix)
    qed
  qed
qed

lemma key_mono:
  "a < b \<Longrightarrow> length (dec a) = length (dec b) \<Longrightarrow> dec a @ ''-'' @ r < dec b @ ''-'' @ r'"
  by (simp add: dec_mono less_append_same_length)

lemma store_put_last:
  "\<forall>y\<in>set st. id' y < id' x \<Longrightarrow> store_put x st = st @ [x]"
  by (induction st) auto

lemma enqueue_all_in_order:
  "sorted_wrt (<) (map now_id es) \<Longrightarrow> \<forall>e\<in>set es. length (dec (now_id e)) = n \<Longrightarrow>
   \<forall>y\<in>set st. \<forall>e\<in>set es. id' y < id' (queued_item e) \<Longrightarrow>
   enqueue_all es st = st @ map queued_item es"
proof (induction es arbitrary: st)
  case Nil
  then show ?case by simp
next
  case (Cons e es)
  have put: "snd (addToSyncQueue (kind e) (payload e) (now_id e) (rnd e) (now_ts e) st)
               = st @ [queued_item e]"
    using Cons.prems(3) by (simp add: addToSyncQueue_def Let_def store_put_last queued_item_def)
  have later: "\<forall>e'\<in>set es. id' (queued_item e) < id' (queued_item e')"
  proof
    fix e' assume "e' \<in> set es"
    with Cons.prems(1,2) have "now_id e < now_id e'"
      and "length (dec (now_id e)) = length (dec (now_id e'))" by auto
    from key_mono[OF this] show "id' (queued_item e) < id' (queued_item e')"
      by (simp add: queued_item_def)
  qed
  have "enqueue_all es (st @ [queued_item e]) = (st @ [queued_item e]) @ map queued_item es"
    using Cons.prems later by (intro Cons.IH) auto
  then show ?case by (simp add: put)
qed

lemma submitted_append: "submitted (t1 @ t2) = submitted t1 @ submitted t2"
  by (induction t1 rule: submitted.induct) auto

lemma succeeded_append: "succeeded (t1 @ t2) = succeeded t1 @ succeeded t2"
  by (induction t1 rule: succeeded.induct) auto

lemma submitted_on_failure: "submitted (snd (on_failure item st)) = []"
  by (simp add: on_failure_def Let_def)

lemma submitted_sync_item: "submitted (snd (sync_item resp item st)) = [item]"
  using submitted_on_failure[of item st]
  by (auto simp: sync_item_def split: itemType.splits response.splits prod.splits)

lemma submitted_drain_loop: "submitted (snd (drain_loop backend xs st)) = xs"
proof (induction xs arbitrary: st)
  case Nil
  then show ?case by simp
next
  case (Cons x xs)
  then show ?case
    by (simp add: case_prod_beta submitted_append submitted_sync_item)
qed

lemma sync_item_accepted:
  "ok c \<Longrightarrow> sync_item (Status c) item st
     = (store_delete (id' item) st,
        if type' item = order then [Fetch ''/api/orders'' item (Status c), LogSynced (id' item)]
        else [Fetch ''/api/waiter-calls'' item (Status c)])"
  by (simp add: sync_item_def removeFromSyncQueue_def split: itemType.splits)

lemma drain_loop_accepted:
  "\<forall>x. \<exists>c. backend x = Status c \<and> ok c \<Longrightarrow> set st \<subseteq> set xs \<Longrightarrow>
   fst (drain_loop backend xs st) = [] \<and> succeeded (snd (drain_loop backend xs st)) = xs"
proof (induction xs arbitrary: st)
  case Nil
  then show ?case by simp
next
  case (Cons x xs)
  from Cons.prems(1) obtain c where c: "backend x = Status c" "ok c" by blast
  have sub: "set (store_delete (id' x) st) \<subseteq> set xs"
    using Cons.prems(2) by (auto simp: store_delete_def)
  from Cons.IH[OF Cons.prems(1) sub] show ?case
    using c by (simp add: case_prod_beta sync_item_accepted succeeded_append)
qed

lemma enqueue_same_ms:
  "enqueue_all same_ms [] = [queued_item (same_ms ! 1), queued_item (same_ms ! 0)]"
  by (simp add: same_ms_def addToSyncQueue_def Let_def queued_item_def dec.simps digit_char_def)

lemma enqueue_next_ms:
  "enqueue_all next_ms [] = [queued_item (next_ms ! 0), queued_item (next_ms ! 1)]"
  by (simp add: next_ms_def addToSyncQueue_def Let_def queued_item_def dec.simps digit_char_def)

lemma processSyncQueue_online:
  "\<not> isProcessing s \<Longrightarrow> processSyncQueue True backend s
      = (s\<lparr>isProcessing := False,
            syncQueue := fst (drain_loop backend (syncQueue s) (syncQueue s))\<rparr>,
         snd (drain_loop backend (syncQueue s) (syncQueue s)))"
  by (simp add: processSyncQueue_def getSyncQueue_def store_getAll_def case_prod_beta Let_def)

lemma submitted_processSyncQueue:
  "\<not> isProcessing s \<Longrightarrow> submitted (snd (processSyncQueue True backend s)) = syncQueue s"
  by (simp add: processSyncQueue_online submitted_drain_loop)

text \<open>
  C8, as stated, fails: order A is enqueued first and order B second, both within the
  same millisecond; B's random suffix sorts before A's, so the drain submits B before A.
\<close>

theorem same_ms_replayed_out_of_order:
  "map payload same_ms = [''A'', ''B'']
   \<and> map data (submitted (snd (processSyncQueue True accepting
         \<lparr>isProcessing = False, syncQueue = enqueue_all same_ms []\<rparr>))) = [''B'', ''A'']"
  by (simp add: submitted_processSyncQueue enqueue_same_ms)
     (simp add: same_ms_def queued_item_def)

text \<open>
  C8, amended. A drain started while no other is running submits the queued mutations in
  ascending order of their ids (the decimal clock reading, then the random suffix). For a
  queue filled by enqueues made at strictly increasing clock readings of equal digit
  count, that is the order in which they were enqueued. If the backend accepts every
  submission, each queued mutation is submitted successfully exactly once and the queue
  is empty afterwards.
\<close>

theorem drain_replays_in_key_order:
  assumes idle: "\<not> isProcessing s" and wf: "wf_store (syncQueue s)"
  shows "submitted (snd (processSyncQueue True backend s)) = getSyncQueue (syncQueue s)
       \<and> sorted_wrt (<) (map id' (submitted (snd (processSyncQueue True backend s))))
       \<and> (syncQueue s = enqueue_all es [] \<and> sorted_wrt (<) (map now_id es)
            \<and> (\<forall>e\<in>set es. length (dec (now_id e)) = n)
          \<longrightarrow> submitted (snd (processSyncQueue True backend s)) = map queued_item es)
       \<and> ((\<forall>x. \<exists>c. backend x = Status c \<and> ok c)
          \<longrightarrow> succeeded (snd (processSyncQueue True backend s)) = getSyncQueue (syncQueue s)
              \<and> syncQueue (fst (processSyncQueue True backend s)) = [])"
proof -
  let ?q = "syncQueue s"
  have run: "processSyncQueue True backend s
      = (s\<lparr>isProcessing := False, syncQueue := fst (drain_loop backend ?q ?q)\<rparr>,
         snd (drain_loop backend ?q ?q))"
    using idle by (rule processSyncQueue_online)
  have sub: "submitted (snd (processSyncQueue True backend s)) = ?q"
    by (simp add: run submitted_drain_loop)
  have ord: "sorted_wrt (<) (map id' (submitted (snd (processSyncQueue True backend s))))"
    using wf by (simp add: sub wf_store_def)
  have enq: "submitted (snd (processSyncQueue True backend s)) = map queued_item es"
    if "syncQueue s = enqueue_all es []" "sorted_wrt (<) (map now_id es)"
       "\<forall>e\<in>set es. length (dec (now_id e)) = n"
    using that enqueue_all_in_order[of es n "[]"] by (simp add: sub)
  have acc: "succeeded (snd (processSyncQueue True backend s)) = getSyncQueue ?q
              \<and> syncQueue (fst (processSyncQueue True backend s)) = []"
    if "\<forall>x. \<exists>c. backend x = Status c \<and> ok c"
    using drain_loop_accepted[OF that, of ?q ?q]
    by (simp add: run getSyncQueue_def store_getAll_def)
  show ?thesis
    using sub ord enq acc by (simp add: getSyncQueue_def store_getAll_def)
qed

theorem drain_replays_in_key_order_witness:
  "\<not> isProcessing \<lparr>isProcessing = False, syncQueue = enqueue_all next_ms []\<rparr>
   \<and> wf_store (enqueue_all next_ms [])
   \<and> sorted_wrt (<) (map now_id next_ms)
   \<and> map (\<lambda>e. length (dec (now_id e))) next_ms = [13, 13]
   \<and> (\<forall>x. \<exists>c. accepting x = Status c \<and> ok c)
   \<and> map data (submitted (snd (processSyncQueue True accepting
         \<lparr>isProcessing = False, syncQueue = enqueue_all next_ms []\<rparr>))) = [''A'', ''B'']
   \<and> map data (succeeded (snd (processSyncQueue True accepting
         \<lparr>isProcessing = False, syncQueue = enqueue_all next_ms []\<rparr>))) = [''A'', ''B'']
   \<and> syncQueue (fst (processSyncQueue True accepting
         \<lparr>isProcessing = False, syncQueue = enqueue_all next_ms []\<rparr>)) = []"
proof -
  let ?s = "\<lparr>isProcessing = False, syncQueue = enqueue_all next_ms []\<rparr>"
  have idle: "\<not> isProcessing ?s" by simp
  have wf: "wf_store (syncQueue ?s)"
    by (simp add: enqueue_next_ms wf_store_def)
       (simp add: next_ms_def queued_item_def dec.simps digit_char_def)
  have clock: "sorted_wrt (<) (map now_id next_ms)
      \<and> (\<forall>e\<in>set next_ms. length (dec (now_id e)) = 13)"
    by (simp add: next_ms_def dec.simps)
  have acc: "\<forall>x. \<exists>c. accepting x = Status c \<and> ok c"
    by (simp add: accepting_def ok_def)
  have pay: "map (data \<circ> queued_item) next_ms = [''A'', ''B'']"
    by (simp add: next_ms_def queued_item_def)
  have q: "syncQueue ?s = enqueue_all next_ms []" by simp
  note th = drain_replays_in_key_order[OF idle wf, of accepting next_ms 13]
  from th q clock have sub: "submitted (snd (processSyncQueue True accepting ?s)) = map queued_item next_ms"
    by blast
  from th have "submitted (snd (processSyncQueue True accepting ?s)) = getSyncQueue (syncQueue ?s)"
    by blast
  moreover from th acc have "succeeded (snd (processSyncQueue True accepting ?s)) = getSyncQueue (syncQueue ?s)"
    and emp: "syncQueue (fst (processSyncQueue True accepting ?s)) = []"
    by blast+
  ultimately have suc: "succeeded (snd (processSyncQueue True accepting ?s)) = map queued_item next_ms"
    using sub by simp
  have digits: "map (\<lambda>e. length (dec (now_id e))) next_ms = [13, 13]"
    by (simp add: next_ms_def dec.simps)
  show ?thesis
    using idle wf clock acc emp digits by (simp add: sub suc pay)
qed

subsection \<open>Overlapping calls\<close>

lemma set_store_put: "set (store_put x st) \<subseteq> insert x (set st)"
  by (induction st) auto

lemma wf_store_put: "wf_store st \<Longrightarrow> wf_store (store_put x st)"
proof (induction st)
  case Nil
  then show ?case by (simp add: wf_store_def)
next
  case (Cons y ys)
  then show ?case
    using set_store_put[of x ys] by (fastforce simp: wf_store_def)
qed

lemma wf_store_delete: "wf_store st \<Longrightarrow> wf_store (store_delete k st)"
  by (simp add: wf_store_def store_delete_def sorted_wrt_map sorted_wrt_filter)

lemma wf_updateSyncQueueItem: "wf_store st \<Longrightarrow> wf_store (updateSyncQueueItem k f st)"
  by (simp add: updateSyncQueueItem_def wf_store_put split: option.splits)

lemma wf_on_failure: "wf_store st \<Longrightarrow> wf_store (fst (on_failure item st))"
  by (simp add: on_failure_def Let_def removeFromSyncQueue_def wf_store_delete wf_updateSyncQueueItem)

lemma wf_sync_item: "wf_store st \<Longrightarrow> wf_store (fst (sync_item resp item st))"
  by (simp add: sync_item_def case_prod_beta removeFromSyncQueue_def wf_store_delete wf_on_failure
      split: itemType.splits response.splits)

lemma wf_addToSyncQueue: "wf_store st \<Longrightarrow> wf_store (snd (addToSyncQueue ty d n r n' st))"
  by (simp add: addToSyncQueue_def Let_def wf_store_put)

lemma wf_store_distinct: "wf_store st \<Longrightarrow> distinct (map id' st)"
  by (simp add: wf_store_def strict_sorted_iff)

lemma one_drain_advance:
  "isProcessing s \<Longrightarrow> length (running s) = 1 \<Longrightarrow> one_drain (advance 0 items s)"
  by (cases items) (auto simp: one_drain_def advance_def)

lemma one_drain_step: "one_drain s \<Longrightarrow> one_drain (step a s)"
proof (cases a)
  case (Call onLine)
  then show "one_drain s \<Longrightarrow> ?thesis" by (auto simp: one_drain_def)
next
  case (QueueRead k)
  then show "one_drain s \<Longrightarrow> ?thesis"
    using one_drain_advance[of s]
    by (auto simp: one_drain_def split: activation.splits if_splits)
next
  case (Settle k resp)
  assume inv: "one_drain s"
  show ?thesis
  proof (cases "k < length (running s)")
    case True
    with inv have k: "k = 0" and p: "isProcessing s" and l: "length (running s) = 1"
      by (auto simp: one_drain_def split: if_splits)
    show ?thesis
    proof (cases "running s ! 0")
      case AwaitQueue
      with Settle k inv show ?thesis by simp
    next
      case (AwaitFetch item rest)
      with Settle k True p l show ?thesis
        by (simp add: case_prod_beta one_drain_advance)
    qed
  next
    case False
    with Settle inv show ?thesis by simp
  qed
next
  case (Enqueue e)
  then show "one_drain s \<Longrightarrow> ?thesis" by (auto simp: one_drain_def)
qed

lemma one_drain_run: "one_drain s \<Longrightarrow> one_drain (run as s)"
  by (induction as arbitrary: s) (auto simp: one_drain_step)

lemma no_resend_step:
  assumes inv: "no_resend s" and on: "isProcessing (step a s)"
  shows "no_resend (step a s)"
proof (cases a)
  case (Call onLine)
  with inv on show ?thesis
    by (auto simp: no_resend_def split: list.splits activation.splits if_splits)
next
  case (QueueRead k)
  from inv have "distinct (map id' (getSyncQueue (syncQueue s)))"
    by (simp add: no_resend_def getSyncQueue_def store_getAll_def wf_store_distinct)
  note snap = this
  show ?thesis
  proof (cases "k < length (running s)")
    case True
    with inv have k: "k = 0" and one: "\<exists>act. running s = [act]"
      by (auto simp: no_resend_def split: list.splits activation.splits)
    then obtain act where act: "running s = [act]" by blast
    show ?thesis
    proof (cases act)
      case AwaitQueue
      with QueueRead k act inv on snap show ?thesis
        by (cases "getSyncQueue (syncQueue s)") (auto simp: no_resend_def advance_def)
    next
      case (AwaitFetch item rest)
      with QueueRead k act inv show ?thesis by simp
    qed
  next
    case False
    with QueueRead inv show ?thesis by simp
  qed
next
  case (Settle k resp)
  show ?thesis
  proof (cases "running s")
    case Nil
    with Settle inv show ?thesis by simp
  next
    case (Cons act others)
    with inv have others: "others = []"
      by (auto simp: no_resend_def split: list.splits activation.splits)
    show ?thesis
    proof (cases act)
      case AwaitQueue
      with Settle Cons others inv show ?thesis by (cases k) auto
    next
      case (AwaitFetch item rest)
      show ?thesis
      proof (cases k)
        case 0
        from inv have wf: "wf_store (fst (sync_item resp item (syncQueue s)))"
          by (simp add: no_resend_def wf_sync_item)
        from inv Cons others AwaitFetch
        have d: "distinct (map id' (sent s @ rest))" and p: "isProcessing s"
          by (auto simp: no_resend_def)
        show ?thesis
        proof (cases rest)
          case Nil
          with on Settle 0 Cons others AwaitFetch show ?thesis
            by (simp add: case_prod_beta advance_def)
        next
          case (Cons y ys)
          with Settle 0 \<open>running s = act # others\<close> others AwaitFetch wf d p show ?thesis
            by (simp add: case_prod_beta advance_def no_resend_def)
        qed
      next
        case (Suc j)
        with Settle Cons others inv show ?thesis by simp
      qed
    qed
  qed
next
  case (Enqueue e)
  with inv show ?thesis
    by (auto simp: no_resend_def wf_addToSyncQueue split: list.splits activation.splits)
qed

lemma no_resend_run: "no_resend s \<Longrightarrow> in_progress as s \<Longrightarrow> no_resend (run as s)"
  by (induction as arbitrary: s) (auto simp: no_resend_step)

lemma no_resend_distinct: "no_resend s \<Longrightarrow> distinct (map id' (sent s))"
  by (auto simp: no_resend_def split: list.splits activation.splits)

text \<open>
  C7. At most one drain runs at a time. Whatever the event loop does from a state in
  which no drain runs, at most one activation exists; a call of \<^verbatim>\<open>processSyncQueue\<close>
  made while the flag is set changes nothing (it neither reads nor writes the queue and
  submits nothing); and as long as the drain that started has not finished, however many
  further calls overlap it, no queued mutation is submitted twice.
\<close>

theorem at_most_one_drain:
  assumes idle: "\<not> isProcessing s0" "running s0 = []"
    and fresh: "sent s0 = []" and wf: "wf_store (syncQueue s0)"
  shows "length (running (run as s0)) \<le> 1
       \<and> (isProcessing (run as s0) \<longrightarrow> step (Call onLine) (run as s0) = run as s0)
       \<and> (in_progress as s0 \<longrightarrow> distinct (map id' (sent (run as s0))))"
proof -
  from idle have "one_drain s0" by (simp add: one_drain_def)
  then have "one_drain (run as s0)" by (rule one_drain_run)
  then have one: "length (running (run as s0)) \<le> 1"
    by (auto simp: one_drain_def split: if_splits)
  from idle fresh wf have "no_resend s0" by (simp add: no_resend_def)
  then have "in_progress as s0 \<Longrightarrow> distinct (map id' (sent (run as s0)))"
    by (simp add: no_resend_run no_resend_distinct)
  with one show ?thesis by simp
qed

lemma run_overlapping:
  "run overlapping two_queued =
     \<lparr>isProcessing = True, syncQueue = [queued_item (next_ms ! 1)],
      running = [AwaitFetch (queued_item (next_ms ! 1)) []],
      sent = [queued_item (next_ms ! 0), queued_item (next_ms ! 1)],
      trace = [Fetch ''/api/orders'' (queued_item (next_ms ! 0)) (Status 201),
               LogSynced (id' (queued_item (next_ms ! 0)))]\<rparr>"
  by (simp add: overlapping_def two_queued_def next_ms_def addToSyncQueue_def Let_def
      queued_item_def dec.simps digit_char_def getSyncQueue_def store_getAll_def
      advance_def sync_item_def ok_def removeFromSyncQueue_def store_delete_def)

theorem at_most_one_drain_witness:
  "\<not> isProcessing two_queued \<and> running two_queued = [] \<and> sent two_queued = []
   \<and> wf_store (syncQueue two_queued)
   \<and> in_progress overlapping two_queued
   \<and> isProcessing (run overlapping two_queued)
   \<and> length (running (run overlapping two_queued)) \<le> 1
   \<and> step (Call True) (run overlapping two_queued) = run overlapping two_queued
   \<and> distinct (map id' (sent (run overlapping two_queued)))
   \<and> map data (sent (run overlapping two_queued)) = [''A'', ''B'']"
proof -
  have idle: "\<not> isProcessing two_queued" "running two_queued = []"
    and fresh: "sent two_queued = []"
    by (simp_all add: two_queued_def)
  have wf: "wf_store (syncQueue two_queued)"
    by (simp add: two_queued_def enqueue_next_ms wf_store_def)
       (simp add: next_ms_def queued_item_def dec.simps digit_char_def)
  have prog: "in_progress overlapping two_queued"
    by (simp add: overlapping_def two_queued_def next_ms_def addToSyncQueue_def Let_def
        queued_item_def dec.simps digit_char_def getSyncQueue_def store_getAll_def
        advance_def sync_item_def ok_def removeFromSyncQueue_def store_delete_def)
  have on: "isProcessing (run overlapping two_queued)"
    by (simp add: run_overlapping)
  have pay: "map data (sent (run overlapping two_queued)) = [''A'', ''B'']"
    by (simp add: run_overlapping) (simp add: next_ms_def queued_item_def)
  from at_most_one_drain[OF idle fresh wf, of overlapping True] prog on
  have "length (running (run overlapping two_queued)) \<le> 1"
    and "step (Call True) (run overlapping two_queued) = run overlapping two_queued"
    and "distinct (map id' (sent (run overlapping two_queued)))"
    by blast+
  with idle fresh wf prog on pay show ?thesis by blast
qed

text \<open>
  The drain run to completion (\<open>processSyncQueue\<close> above) is the interleaved drain with
  nothing interleaved.
\<close>

lemma run_append: "run (as @ bs) s = run bs (run as s)"
  by (induction as arbitrary: s) auto

lemma run_loop:
  "running s = [AwaitFetch x rest] \<Longrightarrow>
   run (map (\<lambda>y. Settle 0 (backend y)) (x # rest)) s
     = s\<lparr>isProcessing := False,
          syncQueue := fst (drain_loop backend (x # rest) (syncQueue s)),
          running := [],
          sent := sent s @ rest,
          trace := trace s @ snd (drain_loop backend (x # rest) (syncQueue s))\<rparr>"
proof (induction rest arbitrary: x s)
  case Nil
  then show ?case by (simp add: case_prod_beta advance_def)
next
  case (Cons y ys)
  let ?s1 = "step (Settle 0 (backend x)) s"
  have r: "running ?s1 = [AwaitFetch y ys]"
    using Cons.prems by (simp add: case_prod_beta advance_def)
  have "run (map (\<lambda>y. Settle 0 (backend y)) (x # y # ys)) s
          = run (map (\<lambda>y. Settle 0 (backend y)) (y # ys)) ?s1"
    by simp
  also note Cons.IH[OF r]
  finally show ?case
    using Cons.prems by (simp add: case_prod_beta advance_def)
qed

lemma uninterrupted_drain:
  assumes "\<not> isProcessing s" "running s = []"
  shows "run (Call True # QueueRead 0 # map (\<lambda>y. Settle 0 (backend y)) (syncQueue s)) s
     = s\<lparr>isProcessing := isProcessing (fst (processSyncQueue True backend (BackgroundSync.truncate s))),
          syncQueue := syncQueue (fst (processSyncQueue True backend (BackgroundSync.truncate s))),
          sent := sent s @ syncQueue s,
          trace := trace s @ snd (processSyncQueue True backend (BackgroundSync.truncate s))\<rparr>"
proof (cases "syncQueue s")
  case Nil
  with assms show ?thesis
    by (simp add: getSyncQueue_def store_getAll_def advance_def processSyncQueue_def
        BackgroundSync.truncate_def)
next
  case (Cons x rest)
  let ?s1 = "step (QueueRead 0) (step (Call True) s)"
  have r: "running ?s1 = [AwaitFetch x rest]"
    using assms Cons by (simp add: getSyncQueue_def store_getAll_def advance_def)
  have "run (Call True # QueueRead 0 # map (\<lambda>y. Settle 0 (backend y)) (syncQueue s)) s
          = run (map (\<lambda>y. Settle 0 (backend y)) (x # rest)) ?s1"
    using Cons by simp
  also note run_loop[OF r]
  finally show ?thesis
    using assms Cons
    by (simp add: getSyncQueue_def store_getAll_def advance_def processSyncQueue_def
        BackgroundSync.truncate_def case_prod_beta Let_def)
qed

section \<open>Properties of the push channel client\<close>

lemmas ws_defs = connect_def disconnect_def onopen_def onclose_def onerror_def onmessage_def
  emit_def attemptReconnect_def isConnected_def delay_for_def maxReconnectAttempts_def
  reconnectDelay_def fresh_def


lemma delay_for_capped: "delay_for n \<le> 10000"
  by (simp add: delay_for_def reconnectDelay_def min_def)






text \<open>
  Ten failed attempts in a row, from a fresh client: the delays are 2, 4, 6, 8 and then
  six times 10 seconds, and after the tenth attempt has failed nothing is pending.
\<close>

lemma ten_failures_schedule:
  "scheduled ten_failures fresh
     = [2000, 4000, 6000, 8000, 10000, 10000, 10000, 10000, 10000, 10000]
   \<and> exhausted (ws_run ten_failures fresh)
   \<and> length (sockets (ws_run ten_failures fresh)) = 11"
  by (simp add: ten_failures_def failed_attempt_def ws_defs exhausted_def)



text \<open>
  C6. After \<^verbatim>\<open>disconnect()\<close> no automatic reconnection establishes a connection until
  \<^verbatim>\<open>connect()\<close> is called again; a retry scheduled before the call does not reconnect.
  In the run below the connection drops, a retry is scheduled, and the application calls
  \<^verbatim>\<open>disconnect()\<close>, which sets the counter to its maximum but leaves the timer pending.
  The timer fires, \<^verbatim>\<open>connect()\<close> finds no open socket and no connection in progress, and
  opens a new socket: the client is connected again without any call from the
  application.
\<close>

theorem reconnects_after_disconnect:
  "reconnect_after_disconnect ! 3 = CallDisconnect
   \<and> ws_run (take 4 reconnect_after_disconnect) fresh
       = \<lparr>sockets = [CLOSED], ws = None, reconnectAttempts = 10, isConnecting = False,
          timers = [2000],
          emitted = [(''connection'', StatusObj ''connected''),
                     (''connection'', StatusObj ''disconnected'')]\<rparr>
   \<and> drop 4 reconnect_after_disconnect = [TimerFires 0 False, SocketOpens 1]
   \<and> ws_run reconnect_after_disconnect fresh
       = \<lparr>sockets = [CLOSED, OPEN], ws = Some 1, reconnectAttempts = 0, isConnecting = False,
          timers = [],
          emitted = [(''connection'', StatusObj ''connected''),
                     (''connection'', StatusObj ''disconnected''),
                     (''connection'', StatusObj ''connected'')]\<rparr>
   \<and> isConnected (ws_run reconnect_after_disconnect fresh)"
  by (simp add: reconnect_after_disconnect_def ws_defs)

lemma emitted_attemptReconnect: "emitted (attemptReconnect s) = emitted s"
  by (simp add: attemptReconnect_def Let_def)

lemma emitted_connect: "emitted (connect throws s) = emitted s"
  by (simp add: connect_def Let_def emitted_attemptReconnect)

lemma emitted_disconnect: "emitted (disconnect s) = emitted s"
  by (simp add: disconnect_def Let_def split: option.splits)

text \<open>Whatever a step emits is a lifecycle event or the server message being delivered.\<close>

lemma emitted_step:
  assumes "x \<in> set (emitted (ws_step e s))"
  shows "x \<in> set (emitted s) \<or> x \<in> lifecycle_events \<or> (\<exists>i. e = SocketMessage i (Some x))"
  using assms
  by (cases e)
     (auto simp: emitted_connect emitted_disconnect emitted_attemptReconnect onopen_def
        onclose_def onerror_def onmessage_def emit_def lifecycle_events_def
        split: option.splits if_splits)

lemma emitted_run:
  assumes "x \<in> set (emitted (ws_run es s))"
  shows "x \<in> set (emitted s) \<or> x \<in> lifecycle_events
       \<or> (\<exists>i. SocketMessage i (Some x) \<in> set es)"
  using assms
proof (induction es arbitrary: s)
  case Nil
  then show ?case by simp
next
  case (Cons e es)
  from Cons.prems have "x \<in> set (emitted (ws_run es (ws_step e s)))" by simp
  from Cons.IH[OF this] emitted_step[of x e s] show ?case by auto
qed

text \<open>The client never builds an object with the status connecting.\<close>

lemma connecting_not_own: "(ty, StatusObj ''connecting'') \<notin> lifecycle_events"
  by (simp add: lifecycle_events_def)

text \<open>
  C9, as stated, fails twice over: a socket error makes the client emit a
  \<^verbatim>\<open>connection\<close> event with status \<^verbatim>\<open>error\<close>, and a server message of type
  \<^verbatim>\<open>connection\<close> is emitted as a \<^verbatim>\<open>connection\<close> event with whatever status its data
  carries; neither status is one of disconnected, connecting, connected.
\<close>

theorem other_statuses_emitted:
  "(''connection'', StatusObj ''error'') \<in> set (emitted (ws_run socket_error fresh))
   \<and> ''error'' \<notin> {''disconnected'', ''connecting'', ''connected''}
   \<and> (''connection'', StatusObj ''maintenance'') \<in> set (emitted (ws_run server_frame fresh))
   \<and> ''maintenance'' \<notin> {''disconnected'', ''connecting'', ''connected''}"
  by (simp add: socket_error_def server_frame_def ws_defs)

text \<open>
  C9, amended. In every execution, every \<^verbatim>\<open>connection\<close> event the client emits either
  carries a status drawn from the four-value set disconnected, connecting, connected,
  error, or is a server message of type \<^verbatim>\<open>connection\<close> received in that execution and
  emitted with its data unchanged.
\<close>

theorem connection_statuses:
  assumes mem: "(''connection'', p) \<in> set (emitted (ws_run es fresh))"
  shows "p \<in> {StatusObj ''disconnected'', StatusObj ''connecting'', StatusObj ''connected'',
               StatusObj ''error''}
       \<or> (\<exists>i. SocketMessage i (Some (''connection'', p)) \<in> set es)"
proof -
  from emitted_run[OF mem]
  have "(''connection'', p) \<in> lifecycle_events
      \<or> (\<exists>i. SocketMessage i (Some (''connection'', p)) \<in> set es)"
    by (simp add: fresh_def)
  then show ?thesis
    by (auto simp: lifecycle_events_def)
qed

theorem connection_statuses_witness:
  "(''connection'', StatusObj ''error'') \<in> set (emitted (ws_run session fresh))
   \<and> (''connection'', StatusObj ''maintenance'') \<in> set (emitted (ws_run session fresh))
   \<and> (\<exists>i. SocketMessage i (Some (''connection'', StatusObj ''maintenance'')) \<in> set session)
   \<and> (\<nexists>i. SocketMessage i (Some (''connection'', StatusObj ''error'')) \<in> set session)"
proof -
  have err: "(''connection'', StatusObj ''error'') \<in> set (emitted (ws_run session fresh))"
    and srv: "(''connection'', StatusObj ''maintenance'') \<in> set (emitted (ws_run session fresh))"
    by (simp_all add: session_def ws_defs)
  have own: "\<nexists>i. SocketMessage i (Some (''connection'', StatusObj ''error'')) \<in> set session"
    by (simp add: session_def)
  from connection_statuses[OF srv]
  have "\<exists>i. SocketMessage i (Some (''connection'', StatusObj ''maintenance'')) \<in> set session"
    by simp
  with err srv own show ?thesis by blast
qed

section \<open>Properties of the sync coordinator\<close>

lemma set_all_apply:
  "set_all cs result m c = (if c \<in> set cs then result c else m c)"
  by (induction cs arbitrary: m) auto

lemma map_of_fresh:
  "\<forall>p\<in>set xs. fst p < (n::nat) \<Longrightarrow> map_of xs n = None"
  by (induction xs) auto

lemma map_of_remove:
  "map_of (filter (\<lambda>p. fst p \<noteq> k) xs) j = (if j = k then None else map_of xs j)"
  by (induction xs) auto

text \<open>
  C1, as stated, fails: two \<^verbatim>\<open>MENU_UPDATE\<close> notifications are processed, the fetch issued
  second resolves first with the newer menu, and the fetch issued first resolves after it
  with the older menu. The older menu is what stays materialized.
\<close>

theorem stale_fetch_wins:
  "materialized (coord_run [Notify MENU_UPDATE, Notify MENU_UPDATE, Resolve 1 newer, Resolve 0 older]
      ready) MenuItems = older MenuItems
   \<and> older MenuItems \<noteq> newer MenuItems"
  by (simp add: ready_def older_def newer_def)

text \<open>
  C1, amended. For every notification type, when two refetches of that type's collections
  are issued in order and both resolve, the materialized collection is the result of the
  fetch that resolves last: the later-issued one if they resolve in issue order, the
  earlier-issued one if it resolves after the newer one.
\<close>

theorem last_completed_fetch_wins:
  assumes fresh_ids: "\<forall>p\<in>set (in_flight s). fst p < issued s"
    and c: "c \<in> set (refetched t)"
  shows "materialized (coord_run [Notify t, Notify t, Resolve (issued s) r1,
            Resolve (issued s + 1) r2] s) c = r2 c
       \<and> materialized (coord_run [Notify t, Notify t, Resolve (issued s + 1) r2,
            Resolve (issued s) r1] s) c = r1 c"
proof -
  have none: "map_of (in_flight s) (issued s) = None"
    using fresh_ids by (rule map_of_fresh)
  have none': "map_of (in_flight s) (Suc (issued s)) = None"
    using fresh_ids by (intro map_of_fresh) auto
  show ?thesis
    using c by (simp add: map_add_def map_of_remove none none' set_all_apply)
qed

theorem last_completed_fetch_wins_witness:
  "Transactions \<in> set (refetched BILL_UPDATE)
   \<and> materialized (coord_run [Notify BILL_UPDATE, Notify BILL_UPDATE, Resolve 0 older,
          Resolve 1 newer] ready) Transactions = [''tea'', ''coffee'']
   \<and> materialized (coord_run [Notify BILL_UPDATE, Notify BILL_UPDATE, Resolve 1 newer,
          Resolve 0 older] ready) Transactions = [''tea'']"
proof -
  have ids: "\<forall>p\<in>set (in_flight ready). fst p < issued ready"
    by (simp add: ready_def)
  have c: "Transactions \<in> set (refetched BILL_UPDATE)" by simp
  have z: "issued ready = 0" by (simp add: ready_def)
  from last_completed_fetch_wins[OF ids c, of older newer] c show ?thesis
    by (simp add: z older_def newer_def)
qed

lemma creates_push_all: "creates (push_all created items @ rest) = items @ creates rest"
  by (induction items) (auto simp: push_all_def)

lemma push_failures_push_all:
  "push_failures (push_all created items @ rest)
     = filter (\<lambda>item. \<not> created item) items @ push_failures rest"
  by (induction items) (auto simp: push_all_def)

text \<open>
  C2, as stated, fails: the backend returns an empty staff collection and the store keeps
  its local staff.
\<close>

theorem empty_staff_not_adopted:
  "staff' empty_backend = Some []
   \<and> staff (state (connectToBackend True (Some empty_backend) pushed_ok local_cafe)) = [''asha'']"
  by (simp add: connectToBackend_def Let_def seeds_def empty_backend_def local_cafe_def
      or_empty_def)

text \<open>
  C2, amended. In a refresh whose health check and requests succeed (the staff result not
  being \<^verbatim>\<open>null\<close>): if the backend's menu is empty or \<^verbatim>\<open>null\<close> and the local menu is not
  empty, every local item is pushed in turn, each failed push is logged and the loop goes
  on, all before the store is written, and the local menu is kept. Orders, bills,
  customers, expenses, waiter calls and transactions take the backend's value, empty
  included (\<^verbatim>\<open>null\<close> read as empty). Staff takes the backend's value only when it is not
  empty, and settings only when it is not \<^verbatim>\<open>null\<close>; otherwise the local value is kept.
\<close>

theorem seed_and_adopt:
  assumes sf: "staff' f = Some sf"
  shows "((menuItems' f = None \<or> menuItems' f = Some []) \<and> menuItems store \<noteq> []
          \<longrightarrow> effects (connectToBackend True (Some f) created store)
                = WsConnect # push_all created (menuItems store) @ [SetState]
              \<and> creates (effects (connectToBackend True (Some f) created store))
                = menuItems store
              \<and> push_failures (effects (connectToBackend True (Some f) created store))
                = filter (\<lambda>item. \<not> created item) (menuItems store)
              \<and> menuItems (state (connectToBackend True (Some f) created store))
                = menuItems store)
       \<and> orders (state (connectToBackend True (Some f) created store)) = or_empty (orders' f)
       \<and> bills (state (connectToBackend True (Some f) created store)) = or_empty (bills' f)
       \<and> customers (state (connectToBackend True (Some f) created store))
            = or_empty (customers' f)
       \<and> expenses (state (connectToBackend True (Some f) created store))
            = or_empty (expenses' f)
       \<and> waiterCalls (state (connectToBackend True (Some f) created store))
            = or_empty (waiterCalls' f)
       \<and> transactions (state (connectToBackend True (Some f) created store))
            = or_empty (transactions' f)
       \<and> staff (state (connectToBackend True (Some f) created store))
            = (if sf \<noteq> [] then sf else staff store)
       \<and> settings (state (connectToBackend True (Some f) created store))
            = (case settings' f of Some v \<Rightarrow> v | None \<Rightarrow> settings store)"
proof (cases "(menuItems' f = None \<or> menuItems' f = Some []) \<and> menuItems store \<noteq> []")
  case True
  then have seed: "seeds f (menuItems store)"
    by (auto simp: seeds_def or_empty_def)
  have run: "connectToBackend True (Some f) created store
      = \<lparr>state = store
           \<lparr>orders := or_empty (orders' f),
            bills := or_empty (bills' f),
            customers := or_empty (customers' f),
            staff := (if length sf > 0 then sf else staff store),
            settings := or_else (settings' f) (settings store),
            expenses := or_empty (expenses' f),
            waiterCalls := or_empty (waiterCalls' f),
            transactions := or_empty (transactions' f)\<rparr>,
         effects = WsConnect # push_all created (menuItems store) @ [SetState],
         error = None, isConnected' = Some True\<rparr>"
    unfolding connectToBackend_def Let_def using seed sf by simp
  show ?thesis
    unfolding run using True
    by (simp add: creates_push_all push_failures_push_all or_else_def)
next
  case False
  then have noseed: "\<not> seeds f (menuItems store)"
    by (auto simp: seeds_def or_empty_def split: option.splits)
  have run: "connectToBackend True (Some f) created store
      = \<lparr>state = store
           \<lparr>menuItems := or_empty (menuItems' f),
            orders := or_empty (orders' f),
            bills := or_empty (bills' f),
            customers := or_empty (customers' f),
            staff := (if length sf > 0 then sf else staff store),
            settings := or_else (settings' f) (settings store),
            expenses := or_empty (expenses' f),
            waiterCalls := or_empty (waiterCalls' f),
            transactions := or_empty (transactions' f)\<rparr>,
         effects = [WsConnect, SetState],
         error = None, isConnected' = Some True\<rparr>"
    unfolding connectToBackend_def Let_def using noseed sf by simp
  show ?thesis
    unfolding run using False
    by (auto simp: or_else_def)
qed

theorem seed_and_adopt_witness:
  "staff' empty_backend = Some []
   \<and> menuItems' empty_backend = Some [] \<and> menuItems local_cafe \<noteq> []
   \<and> effects (connectToBackend True (Some empty_backend) pushed_ok local_cafe)
       = [WsConnect, Create ''tea'', Create ''coffee'', LogPushFailed ''coffee'', Create ''momo'',
          SetState]
   \<and> menuItems (state (connectToBackend True (Some empty_backend) pushed_ok local_cafe))
       = [''tea'', ''coffee'', ''momo'']
   \<and> orders (state (connectToBackend True (Some empty_backend) pushed_ok local_cafe)) = []
   \<and> staff (state (connectToBackend True (Some empty_backend) pushed_ok local_cafe)) = [''asha'']
   \<and> settings (state (connectToBackend True (Some empty_backend) pushed_ok local_cafe))
       = ''local settings''"
proof -
  have sf: "staff' empty_backend = Some []" by (simp add: empty_backend_def)
  have seed: "(menuItems' empty_backend = None \<or> menuItems' empty_backend = Some [])
      \<and> menuItems local_cafe \<noteq> []"
    by (simp add: empty_backend_def local_cafe_def)
  note th = seed_and_adopt[OF sf, of local_cafe pushed_ok]
  from th seed
  have e: "effects (connectToBackend True (Some empty_backend) pushed_ok local_cafe)
             = WsConnect # push_all pushed_ok (menuItems local_cafe) @ [SetState]"
    and m: "menuItems (state (connectToBackend True (Some empty_backend) pushed_ok local_cafe))
             = menuItems local_cafe"
    by blast+
  from th
  have o: "orders (state (connectToBackend True (Some empty_backend) pushed_ok local_cafe))
             = or_empty (orders' empty_backend)"
    and s: "staff (state (connectToBackend True (Some empty_backend) pushed_ok local_cafe))
             = (if ([]::string list) \<noteq> [] then [] else staff local_cafe)"
    and g: "settings (state (connectToBackend True (Some empty_backend) pushed_ok local_cafe))
             = (case settings' empty_backend of Some v \<Rightarrow> v | None \<Rightarrow> settings local_cafe)"
    by blast+
  have vals: "menuItems' empty_backend = Some []" "menuItems local_cafe = [''tea'', ''coffee'', ''momo'']"
    "or_empty (orders' empty_backend) = []" "staff local_cafe = [''asha'']"
    "settings' empty_backend = None" "settings local_cafe = ''local settings''"
    by (simp_all add: empty_backend_def local_cafe_def or_empty_def)
  have p: "push_all pushed_ok [''tea'', ''coffee'', ''momo'']
      = [Create ''tea'', Create ''coffee'', LogPushFailed ''coffee'', Create ''momo'']"
    by (simp add: push_all_def pushed_ok_def)
  show ?thesis
    unfolding e m o s g vals p using sf by simp
qed

end
